theory Spec2Isabelle
  imports Main
begin

section \<open>The site monitor of sitemon.sh\<close>

text \<open>
  \<^verbatim>\<open>sitemon.sh\<close> starts one background subshell per configured site; each runs the
  function \<^verbatim>\<open>sitemon site interval\<close>, an endless loop that probes the site with curl,
  keeps four local variables (\<^verbatim>\<open>lastOK\<close>, \<^verbatim>\<open>lastFAIL\<close>, \<^verbatim>\<open>status\<close>, \<^verbatim>\<open>count\<close>) and the
  variable \<^verbatim>\<open>error_duration\<close> (not declared local, but private to the subshell), writes
  lines to the site's log file and calls \<^verbatim>\<open>send_telegram_message\<close>.

  The model below follows the function statement by statement. What the environment
  supplies in a cycle is an input of that cycle: the code curl prints for
  \<^verbatim>\<open>%{http_code}\<close> (a number; 000 when there was no response) and the text
  \<^verbatim>\<open>date\<close> prints. What the function does to the outside is an event: a line handed to
  \<^verbatim>\<open>tee -a "$logfile"\<close>, or a call of \<^verbatim>\<open>send_telegram_message\<close>. The loop never
  returns, so a run is described by the state and the events after any finite number of
  cycles, one cycle per element of the input list.

  Shell integers are 64-bit. \<^verbatim>\<open>count\<close> starts at 0 and grows by one per cycle, and each
  cycle ends in \<^verbatim>\<open>sleep "$interval"\<close>, so that \<^verbatim>\<open>count * interval\<close> stays below the
  number of seconds the monitor has been running plus one interval: the counters are
  modelled as natural numbers, without wrap-around.
\<close>

subsection \<open>Data\<close>

text \<open>\<^verbatim>\<open>status\<close>: 1 for OK (\<open>UP\<close>), 0 for FAIL (\<open>DOWN\<close>).\<close>

datatype status = UP | DOWN

type_synonym timestamp = string

text \<open>
  One constructor per message text of \<^verbatim>\<open>sitemon\<close>, holding the expansions of the variables
  the text mentions. \<^verbatim>\<open>error_duration\<close> is unset until the first failed probe, and an
  unset variable expands to the empty text: hence \<open>nat option\<close>.
\<close>

datatype message =
    Monitoring_started string string
  | Last_fail timestamp "nat option"
  | Back_online string "nat option"
  | Response_OK string
  | Response_FAIL string nat
  | ALERT string "nat option" timestamp

text \<open>
  \<open>Log s m\<close>: the function \<^verbatim>\<open>log\<close> wrote the line of \<open>m\<close> to the site's log file (and to
  stderr) while \<^verbatim>\<open>status\<close> was \<open>s\<close>. \<open>Telegram m\<close>: \<^verbatim>\<open>send_telegram_message\<close> was called
  with the text of \<open>m\<close>; that function posts the text when \<^verbatim>\<open>disable_telegram\<close> is 0 and
  drops it otherwise. The \<^verbatim>\<open>[date]\<close> prefix that \<^verbatim>\<open>log\<close> puts before the text, in the
  file and in the mirrored Telegram message, is not part of the event.
\<close>

datatype event = Log status message | Telegram message

record sitestate =
  lastOK :: timestamp
  lastFAIL :: timestamp
  status :: status
  count :: nat
  error_duration :: "nat option"

text \<open>A probe: the code curl printed, and what \<^verbatim>\<open>date\<close> prints during the cycle.\<close>

type_synonym probe = "nat \<times> timestamp"

text \<open>
  The code of a probe is the output of \<^verbatim>\<open>curl -sL -o /dev/null -w "%{http_code}"\<close>
  (line 100). curl is not part of the script; by its manual, \<^verbatim>\<open>-L\<close> makes it follow every
  redirect it is sent, and \<^verbatim>\<open>%{http_code}\<close> is the code of the last response it received,
  000 if it received none. \<open>responses\<close> are the codes of the responses curl received for
  one probe, in order: when there is more than one, all but the last were redirects that
  curl followed.
\<close>

definition curl_sL :: "nat list \<Rightarrow> nat" where
  "curl_sL responses = (if responses = [] then 0 else last responses)"

subsection \<open>Message texts\<close>

fun dec :: "nat \<Rightarrow> string" where
  "dec n = (if n < 10 then [''0123456789'' ! n]
            else dec (n div 10) @ [''0123456789'' ! (n mod 10)])"

declare dec.simps [simp del]

text \<open>curl prints \<^verbatim>\<open>%{http_code}\<close> with three digits.\<close>

definition http_code :: "nat \<Rightarrow> string" where
  "http_code c = (if c < 10 then ''00'' @ dec c else if c < 100 then ''0'' @ dec c else dec c)"

definition expand :: "nat option \<Rightarrow> string" where
  "expand d = (case d of None \<Rightarrow> [] | Some n \<Rightarrow> dec n)"

fun render :: "message \<Rightarrow> string" where
  "render (Monitoring_started site pid) =
     ''Monitoring started for '' @ site @ '' (PID '' @ pid @ '')''"
| "render (Last_fail t d) = ''Last fail: '' @ t @ '' lasted '' @ expand d @ '' seconds''"
| "render (Back_online site d) =
     site @ '' is back online. Downtime was '' @ expand d @ '' seconds''"
| "render (Response_OK site) = site @ '' response OK''"
| "render (Response_FAIL site c) = site @ '' response FAIL with code '' @ http_code c"
| "render (ALERT site d t) =
     ''ALERT: '' @ site @ '' DOWN! for '' @ expand d @ '' seconds. Last ok: '' @ t"

subsection \<open>The function log and one cycle of the loop\<close>

text \<open>
  \<^verbatim>\<open>log\<close>: the line goes to the log file; it goes to Telegram too only if \<^verbatim>\<open>status\<close> is 0
  at that moment.
\<close>

definition log :: "sitestate \<Rightarrow> message \<Rightarrow> event list" where
  "log st m = Log (status st) m # (if status st = DOWN then [Telegram m] else [])"

text \<open>
  The body of \<^verbatim>\<open>while true\<close>, without the final sleep. The statements are in the
  order of the source; \<open>st1\<close>, \<open>st2\<close>, ... are the variables after each assignment.
\<close>

definition cycle :: "string \<Rightarrow> nat \<Rightarrow> probe \<Rightarrow> sitestate \<Rightarrow> sitestate \<times> event list" where
  "cycle site interval p st =
    (let respcode = fst p; date = snd p in
     if respcode = 200 then
       (let out1 = (if status st = DOWN \<and> lastFAIL st \<noteq> []
                    then log st (Last_fail (lastFAIL st) (error_duration st))
                         @ [Telegram (Back_online site (error_duration st))]
                    else []);
            st1 = st\<lparr>status := UP\<rparr>;
            out2 = log st1 (Response_OK site);
            st2 = st1\<lparr>lastOK := date\<rparr>;
            st3 = st2\<lparr>count := 0\<rparr>
        in (st3, out1 @ out2))
     else
       (let st1 = st\<lparr>status := DOWN\<rparr>;
            out1 = (if count st1 < 4 then log st1 (Response_FAIL site respcode) else []);
            st2 = st1\<lparr>count := count st1 + 1\<rparr>;
            st3 = st2\<lparr>error_duration := Some (count st2 * interval)\<rparr>
        in if count st3 mod 12 = 0
           then (st3\<lparr>lastFAIL := date\<rparr>,
                 out1 @ log st3 (ALERT site (error_duration st3) (lastOK st3)))
           else (st3, out1)))"

subsection \<open>The loop\<close>

text \<open>
  The cycles of the loop on the probes \<open>ps\<close>, from the state \<open>st\<close>: the state after the
  last of them and the events of all of them, in order.
\<close>

fun loop :: "string \<Rightarrow> nat \<Rightarrow> sitestate \<Rightarrow> probe list \<Rightarrow> sitestate \<times> event list" where
  "loop site interval st [] = (st, [])"
| "loop site interval st (p # ps) =
     (case cycle site interval p st of
        (st1, out1) \<Rightarrow>
          (case loop site interval st1 ps of (st2, out2) \<Rightarrow> (st2, out1 @ out2)))"

text \<open>The variables when the loop is entered.\<close>

definition init :: sitestate where
  "init = \<lparr>lastOK = [], lastFAIL = [], status = UP, count = 0, error_duration = None\<rparr>"

text \<open>
  \<^verbatim>\<open>sitemon site interval\<close> up to the end of the cycle that consumes the last probe of
  \<open>ps\<close>; \<open>pid\<close> is the expansion of \<^verbatim>\<open>$$\<close>.
\<close>

definition sitemon :: "string \<Rightarrow> string \<Rightarrow> nat \<Rightarrow> probe list \<Rightarrow> sitestate \<times> event list" where
  "sitemon pid site interval ps =
     (case loop site interval init ps of
        (st, out) \<Rightarrow> (st, log init (Monitoring_started site pid) @ out))"

subsection \<open>Reading the events of a run\<close>

text \<open>The ALERT lines and the ordinary failure lines among the events.\<close>

fun is_alert :: "event \<Rightarrow> bool" where
  "is_alert (Log s (ALERT site d t)) = True"
| "is_alert e = False"

definition alerts :: "event list \<Rightarrow> event list" where
  "alerts out = filter is_alert out"

fun is_failure_line :: "event \<Rightarrow> bool" where
  "is_failure_line (Log s (Response_FAIL site c)) = True"
| "is_failure_line e = False"

definition failure_lines :: "event list \<Rightarrow> event list" where
  "failure_lines out = filter is_failure_line out"

text \<open>
  The recovery report: the "Last fail" line, its copy on Telegram, and the "back online"
  message.
\<close>

fun is_recovery_report :: "event \<Rightarrow> bool" where
  "is_recovery_report (Log s (Last_fail t d)) = True"
| "is_recovery_report (Telegram (Last_fail t d)) = True"
| "is_recovery_report (Telegram (Back_online site d)) = True"
| "is_recovery_report e = False"

text \<open>
  \<open>mirrored\<close>: every line logged while DOWN is followed at once by the same message on
  Telegram, and no line logged while UP is followed by a Telegram message.
\<close>

fun mirrored :: "event list \<Rightarrow> bool" where
  "mirrored [] = True"
| "mirrored (Log s m # es) =
     ((case es of Telegram m' # es' \<Rightarrow> s = DOWN \<and> m' = m | _ \<Rightarrow> s = UP) \<and> mirrored es)"
| "mirrored (Telegram m # es) = mirrored es"

fun starts_with_log :: "event list \<Rightarrow> bool" where
  "starts_with_log (Telegram m # es) = False"
| "starts_with_log es = True"

text \<open>
  \<open>sent e\<close>: what the event hands to Telegram. \<open>due e\<close>: what Telegram is to receive
  on account of the event: a line logged while DOWN, or the "back online" message itself.
\<close>

fun sent :: "event \<Rightarrow> message list" where
  "sent (Telegram m) = [m]"
| "sent (Log s m) = []"

fun due :: "event \<Rightarrow> message list" where
  "due (Log DOWN m) = [m]"
| "due (Log UP m) = []"
| "due (Telegram (Back_online site d)) = [Back_online site d]"
| "due (Telegram m) = []"

section \<open>The startup block of sitemon.sh\<close>

text \<open>
  Before any monitor is started the script runs one of two blocks, chosen by
  \<^verbatim>\<open>[ "$flush_log_on_start" -eq 0 ]\<close>. Only their effect on files is modelled (both
  also write to stderr and call \<^verbatim>\<open>send_telegram_message\<close>). A file system maps a path
  to the content of the file, a string in which every line ends with the newline
  character; the directories are taken to exist and to be writable.
\<close>

type_synonym files = "string \<Rightarrow> string option"

record config =
  SITES :: "string list"
  LOG_DIR :: string
  LOG_FILE :: string
  flush_log_on_start :: int

text \<open>\<^verbatim>\<open>"${LOG_DIR}/${site//\//_}.log"\<close>: every slash of the site becomes an underscore.\<close>

definition logfile :: "string \<Rightarrow> string \<Rightarrow> string" where
  "logfile dir site =
     dir @ ''/'' @ map (\<lambda>c. if c = CHR ''/'' then CHR ''_'' else c) site @ ''.log''"

text \<open>\<^verbatim>\<open>echo text\<close> prints the text and a newline.\<close>

definition echo :: "string \<Rightarrow> string" where
  "echo text = text @ [CHR 0x0A]"

text \<open>
  \<open>overwrite\<close>: what \<^verbatim>\<open>> file\<close> and \<^verbatim>\<open>tee file\<close> do: the file is opened with truncation
  and the text is written. \<open>tee_a\<close>: what \<^verbatim>\<open>tee -a file\<close> does: the text is added at
  the end, and the file is created if it is missing.
\<close>

definition overwrite :: "files \<Rightarrow> string \<Rightarrow> string \<Rightarrow> files" where
  "overwrite fs path text = fs(path \<mapsto> text)"

definition tee_a :: "files \<Rightarrow> string \<Rightarrow> string \<Rightarrow> files" where
  "tee_a fs path text = fs(path \<mapsto> (case fs path of None \<Rightarrow> [] | Some old \<Rightarrow> old) @ text)"

text \<open>\<^verbatim>\<open>log_service\<close>, as far as files go: one dated line appended to \<^verbatim>\<open>$LOG_FILE\<close>.\<close>

definition log_service :: "string \<Rightarrow> timestamp \<Rightarrow> string \<Rightarrow> files \<Rightarrow> files" where
  "log_service file date text fs = tee_a fs file (echo (''['' @ date @ ''] '' @ text))"

text \<open>
  In the first block the line is \<^verbatim>\<open>log_service "..." | tee "$LOG_FILE" >&2\<close>. The two
  sides of the pipe run at the same time. The left side appends the line to
  \<^verbatim>\<open>$LOG_FILE\<close> and prints nothing to the pipe (inside \<^verbatim>\<open>log_service\<close> the output of
  \<^verbatim>\<open>tee -a\<close> goes to stderr). The right side opens \<^verbatim>\<open>$LOG_FILE\<close> with truncation and
  then has nothing to write. Which of the two happens first is not fixed; \<open>order\<close> names
  the two cases.
\<close>

datatype order = Truncate_first | Append_first

definition startup :: "config \<Rightarrow> order \<Rightarrow> timestamp \<Rightarrow> string \<Rightarrow> files \<Rightarrow> files" where
  "startup cfg ord date pid fs =
     (if flush_log_on_start cfg = 0 then
        (case ord of
           Truncate_first \<Rightarrow>
             log_service (LOG_FILE cfg) date (''Script is started. PID '' @ pid)
               (overwrite fs (LOG_FILE cfg) [])
         | Append_first \<Rightarrow>
             overwrite
               (log_service (LOG_FILE cfg) date (''Script is started. PID '' @ pid) fs)
               (LOG_FILE cfg) [])
      else
        (let fs1 = fold (\<lambda>site fs. overwrite fs (logfile (LOG_DIR cfg) site) (echo []))
                        (SITES cfg) fs
         in overwrite fs1 (LOG_FILE cfg)
              (echo (''['' @ date @ '']  Script is started. PID '' @ pid))))"

text \<open>A configuration and a file system to try the block on.\<close>

definition example_config :: "int \<Rightarrow> config" where
  "example_config flush =
     \<lparr>SITES = [''example.com/a''], LOG_DIR = ''/var/log/sitemon'',
      LOG_FILE = ''/var/log/sitemon.log'', flush_log_on_start = flush\<rparr>"

definition example_files :: files where
  "example_files =
     [''/var/log/sitemon/example.com_a.log'' \<mapsto> echo ''old line'',
      ''/var/log/sitemon.log'' \<mapsto> echo ''history'']"

section \<open>Basic facts\<close>

lemma loop_append:
  "loop site interval st (ps @ qs) =
     (case loop site interval st ps of
        (st1, out1) \<Rightarrow>
          (case loop site interval st1 qs of (st2, out2) \<Rightarrow> (st2, out1 @ out2)))"
  by (induction ps arbitrary: st) (auto split: prod.splits)

lemma loop_snoc:
  "loop site interval st (ps @ [p]) =
     (case loop site interval st ps of
        (st1, out1) \<Rightarrow>
          (case cycle site interval p st1 of (st2, out2) \<Rightarrow> (st2, out1 @ out2)))"
  by (simp add: loop_append split: prod.splits)

lemma sitemon_state: "fst (sitemon pid site interval ps) = fst (loop site interval init ps)"
  by (simp add: sitemon_def split: prod.splits)

lemma cycle_success_state:
  "fst p = 200 \<Longrightarrow>
   fst (cycle site interval p st) = st\<lparr>status := UP, lastOK := snd p, count := 0\<rparr>"
  by (simp add: cycle_def Let_def)

lemma cycle_failure_count:
  "fst p \<noteq> 200 \<Longrightarrow> count (fst (cycle site interval p st)) = count st + 1"
  by (simp add: cycle_def Let_def)

lemma cycle_failure_status:
  "fst p \<noteq> 200 \<Longrightarrow> status (fst (cycle site interval p st)) = DOWN"
  by (simp add: cycle_def Let_def)

lemma loop_snoc_state:
  "fst (loop site interval st (ps @ [p])) =
     fst (cycle site interval p (fst (loop site interval st ps)))"
  by (simp add: loop_snoc split: prod.splits)

lemma loop_snoc_events:
  "snd (loop site interval st (ps @ [p])) =
     snd (loop site interval st ps)
     @ snd (cycle site interval p (fst (loop site interval st ps)))"
  by (simp add: loop_snoc split: prod.splits)

lemma sitemon_events:
  "snd (sitemon pid site interval ps) =
     Log UP (Monitoring_started site pid) # snd (loop site interval init ps)"
  by (simp add: sitemon_def log_def init_def split: prod.splits)

subsection \<open>The counter\<close>

lemma count_loop:
  "count (fst (loop site interval st ps)) =
     (if \<exists>p \<in> set ps. fst p = 200 then 0 else count st)
     + length (takeWhile (\<lambda>p. fst p \<noteq> 200) (rev ps))"
proof (induction ps rule: rev_induct)
  case Nil
  then show ?case by simp
next
  case (snoc p ps)
  show ?case
  proof (cases "fst p = 200")
    case True
    then show ?thesis
      by (simp add: loop_snoc_state cycle_success_state)
  next
    case False
    then show ?thesis
      using snoc by (simp add: loop_snoc_state cycle_failure_count)
  qed
qed

lemma count_sitemon:
  "count (fst (sitemon pid site interval ps))
     = length (takeWhile (\<lambda>p. fst p \<noteq> 200) (rev ps))"
  by (simp add: sitemon_state count_loop init_def)

text \<open>
  Two facts that hold whenever the loop is between two cycles: the counter is 0 while the
  status is UP, and while it is DOWN \<^verbatim>\<open>error_duration\<close> is the counter times the interval.
\<close>

lemma inv_loop:
  "(status st = UP \<longrightarrow> count st = 0)
   \<and> (status st = DOWN \<longrightarrow> error_duration st = Some (count st * interval)) \<Longrightarrow>
   (status (fst (loop site interval st ps)) = UP \<longrightarrow> count (fst (loop site interval st ps)) = 0)
   \<and> (status (fst (loop site interval st ps)) = DOWN \<longrightarrow>
        error_duration (fst (loop site interval st ps))
          = Some (count (fst (loop site interval st ps)) * interval))"
proof (induction ps rule: rev_induct)
  case Nil
  then show ?case by simp
next
  case (snoc p ps)
  show ?case
    by (cases "fst p = 200") (simp_all add: loop_snoc_state cycle_def Let_def)
qed

lemma inv_sitemon:
  "(status (fst (sitemon pid site interval ps)) = UP \<longrightarrow>
      count (fst (sitemon pid site interval ps)) = 0)
   \<and> (status (fst (sitemon pid site interval ps)) = DOWN \<longrightarrow>
        error_duration (fst (sitemon pid site interval ps))
          = Some (count (fst (sitemon pid site interval ps)) * interval))"
  using inv_loop [of init interval site ps] by (simp add: sitemon_state init_def)

subsection \<open>ALERT lines\<close>

lemma alerts_cycle:
  "alerts (snd (cycle site interval p st)) =
     (if 0 < count (fst (cycle site interval p st))
         \<and> count (fst (cycle site interval p st)) mod 12 = 0
      then [Log DOWN (ALERT site (Some (count (fst (cycle site interval p st)) * interval))
                        (lastOK st))]
      else [])"
  by (simp add: cycle_def Let_def alerts_def log_def)

lemma lastOK_all_fail:
  "\<forall>p\<in>set ps. fst p \<noteq> 200 \<Longrightarrow> lastOK (fst (loop site interval st ps)) = lastOK st"
  by (induction ps rule: rev_induct) (simp_all add: loop_snoc_state cycle_def Let_def)

lemma count_all_fail:
  "\<forall>p\<in>set ps. fst p \<noteq> 200 \<Longrightarrow>
   count (fst (loop site interval st ps)) = count st + length ps"
  by (induction ps rule: rev_induct) (simp_all add: loop_snoc_state cycle_def Let_def)

text \<open>On a run of failures only, there is one ALERT per multiple of 12 reached.\<close>

lemma alerts_all_fail:
  "\<forall>p\<in>set ps. fst p \<noteq> 200 \<Longrightarrow>
   alerts (snd (loop site interval init ps)) =
     map (\<lambda>k. Log DOWN (ALERT site (Some (k * interval)) []))
         (filter (\<lambda>k. k mod 12 = 0) [1..<Suc (length ps)])"
proof (induction ps rule: rev_induct)
  case Nil
  then show ?case by (simp add: alerts_def)
next
  case (snoc p ps)
  then have f: "\<forall>p\<in>set ps. fst p \<noteq> 200" and p: "fst p \<noteq> 200" by simp_all
  have c: "count (fst (loop site interval init ps)) = length ps"
    using count_all_fail [OF f, of site interval init] by (simp add: init_def)
  have l: "lastOK (fst (loop site interval init ps)) = []"
    using lastOK_all_fail [OF f, of site interval init] by (simp add: init_def)
  have "alerts (snd (loop site interval init (ps @ [p]))) =
        alerts (snd (loop site interval init ps))
        @ alerts (snd (cycle site interval p (fst (loop site interval init ps))))"
    by (simp add: loop_snoc_events alerts_def)
  then show ?case
    using snoc.IH [OF f] p c l
    by (simp add: alerts_cycle cycle_failure_count)
qed

lemma multiples_below_14: "filter (\<lambda>k. k mod 12 = 0) [Suc 0..<14] = [12::nat]"
  by code_simp

lemma multiples_below_13: "filter (\<lambda>k. k mod 12 = 0) [Suc 0..<13] = [12::nat]"
  by code_simp

lemma multiples_below_12: "filter (\<lambda>k. k mod 12 = 0) [Suc 0..<12] = ([]::nat list)"
  by code_simp

subsection \<open>Lines and their copies on Telegram\<close>

lemma mirrored_append:
  "mirrored a \<Longrightarrow> mirrored b \<Longrightarrow> starts_with_log b \<Longrightarrow> mirrored (a @ b)"
proof (induction a rule: mirrored.induct)
  case 1
  then show ?case by simp
next
  case (2 s m es)
  then show ?case
    by (cases es; cases b rule: starts_with_log.cases) (auto split: list.splits event.splits)
next
  case (3 m es)
  then show ?case by simp
qed

lemma starts_with_log_append:
  "starts_with_log a \<Longrightarrow> starts_with_log b \<Longrightarrow> starts_with_log (a @ b)"
  by (cases a rule: starts_with_log.cases) simp_all

lemma cycle_mirrored:
  "mirrored (snd (cycle site interval p st))
   \<and> starts_with_log (snd (cycle site interval p st))"
  by (simp add: cycle_def Let_def log_def)

lemma loop_mirrored:
  "mirrored (snd (loop site interval st ps))
   \<and> starts_with_log (snd (loop site interval st ps))"
proof (induction ps arbitrary: st)
  case Nil
  then show ?case by simp
next
  case (Cons p ps)
  obtain st1 out1 where c: "cycle site interval p st = (st1, out1)"
    by (cases "cycle site interval p st")
  obtain st2 out2 where l: "loop site interval st1 ps = (st2, out2)"
    by (cases "loop site interval st1 ps")
  have 1: "mirrored out1" "starts_with_log out1"
    using cycle_mirrored [of site interval p st] c by simp_all
  have 2: "mirrored out2" "starts_with_log out2"
    using Cons.IH [of st1] l by simp_all
  show ?case
    using 1 2 c l by (simp add: mirrored_append starts_with_log_append)
qed

lemma mirrored_nth:
  "mirrored tr \<Longrightarrow> i < length tr \<Longrightarrow> tr ! i = Log s m \<Longrightarrow>
   (s = DOWN \<longrightarrow> Suc i < length tr \<and> tr ! Suc i = Telegram m)
   \<and> (s = UP \<longrightarrow> \<not> (Suc i < length tr \<and> (\<exists>m'. tr ! Suc i = Telegram m')))"
proof (induction tr arbitrary: i rule: mirrored.induct)
  case 1
  then show ?case by simp
next
  case (2 s' m' es)
  show ?case
  proof (cases i)
    case 0
    then show ?thesis using 2 by (cases s) (auto split: list.splits event.splits)
  next
    case (Suc j)
    then show ?thesis using 2 by simp
  qed
next
  case (3 m' es)
  then show ?case by (cases i) simp_all
qed

lemma cycle_accounting:
  "concat (map sent (snd (cycle site interval p st)))
     = concat (map due (snd (cycle site interval p st)))"
  by (simp add: cycle_def Let_def log_def)

lemma loop_accounting:
  "concat (map sent (snd (loop site interval st ps)))
     = concat (map due (snd (loop site interval st ps)))"
  by (induction ps rule: rev_induct) (simp_all add: loop_snoc_events cycle_accounting)

subsection \<open>The variable lastFAIL\<close>

lemma lastFAIL_cycle:
  "lastFAIL (fst (cycle site interval p st)) =
     (if fst p \<noteq> 200 \<and> 0 < count (fst (cycle site interval p st))
         \<and> count (fst (cycle site interval p st)) mod 12 = 0
      then snd p else lastFAIL st)"
  by (simp add: cycle_def Let_def)

lemma positive_multiple_of_12: "0 < (c::nat) \<Longrightarrow> c mod 12 = 0 \<Longrightarrow> 12 \<le> c"
  by presburger

lemma lastFAIL_persists:
  "\<forall>p\<in>set qs. snd p \<noteq> [] \<Longrightarrow> lastFAIL st \<noteq> [] \<Longrightarrow>
   lastFAIL (fst (loop site interval st qs)) \<noteq> []"
  by (induction qs rule: rev_induct) (simp_all add: loop_snoc_state lastFAIL_cycle)

lemma lastFAIL_needs_alert:
  "lastFAIL (fst (loop site interval init ps)) \<noteq> [] \<Longrightarrow>
   \<exists>k<length ps. 12 \<le> count (fst (loop site interval init (take (Suc k) ps)))
                \<and> count (fst (loop site interval init (take (Suc k) ps))) mod 12 = 0"
proof (induction ps rule: rev_induct)
  case Nil
  then show ?case by (simp add: init_def)
next
  case (snoc p ps)
  let ?c = "count (fst (loop site interval init (ps @ [p])))"
  show ?case
  proof (cases "fst p \<noteq> 200 \<and> 0 < ?c \<and> ?c mod 12 = 0")
    case True
    then have c: "12 \<le> ?c" "?c mod 12 = 0"
      using positive_multiple_of_12 [of ?c] by simp_all
    have t: "take (Suc (length ps)) (ps @ [p]) = ps @ [p]" by simp
    have "length ps < length (ps @ [p])
          \<and> 12 \<le> count (fst (loop site interval init (take (Suc (length ps)) (ps @ [p]))))
          \<and> count (fst (loop site interval init (take (Suc (length ps)) (ps @ [p])))) mod 12 = 0"
      unfolding t using c by simp
    then show ?thesis by (rule exI [of _ "length ps"])
  next
    case False
    let ?d = "count (fst (cycle site interval p (fst (loop site interval init ps))))"
    have n: "\<not> (fst p \<noteq> 200 \<and> 0 < ?d \<and> ?d mod 12 = 0)"
      using False by (simp add: loop_snoc_state)
    have "lastFAIL (fst (cycle site interval p (fst (loop site interval init ps)))) =
          (if fst p \<noteq> 200 \<and> 0 < ?d \<and> ?d mod 12 = 0
           then snd p else lastFAIL (fst (loop site interval init ps)))"
      by (rule lastFAIL_cycle)
    then have "lastFAIL (fst (loop site interval init (ps @ [p])))
               = lastFAIL (fst (loop site interval init ps))"
      using n by (simp only: loop_snoc_state if_False)
    then have "lastFAIL (fst (loop site interval init ps)) \<noteq> []"
      using snoc.prems by simp
    from snoc.IH [OF this] obtain k where k: "k < length ps"
      "12 \<le> count (fst (loop site interval init (take (Suc k) ps)))"
      "count (fst (loop site interval init (take (Suc k) ps))) mod 12 = 0"
      by (elim exE conjE)
    have t: "take (Suc k) (ps @ [p]) = take (Suc k) ps" using k(1) by simp
    have "k < length (ps @ [p])
          \<and> 12 \<le> count (fst (loop site interval init (take (Suc k) (ps @ [p]))))
          \<and> count (fst (loop site interval init (take (Suc k) (ps @ [p])))) mod 12 = 0"
      unfolding t using k by simp
    then show ?thesis by (rule exI [of _ k])
  qed
qed

lemma report_cycle:
  "e \<in> set (snd (cycle site interval p st)) \<Longrightarrow> is_recovery_report e \<Longrightarrow> lastFAIL st \<noteq> []"
  by (auto simp: cycle_def Let_def log_def split: if_splits)

lemma report_needs_lastFAIL:
  "e \<in> set (snd (loop site interval init ps)) \<Longrightarrow> is_recovery_report e \<Longrightarrow>
   \<exists>j\<le>length ps. lastFAIL (fst (loop site interval init (take j ps))) \<noteq> []"
proof (induction ps rule: rev_induct)
  case Nil
  then show ?case by simp
next
  case (snoc p ps)
  from snoc.prems(1) consider
    (old) "e \<in> set (snd (loop site interval init ps))"
    | (new) "e \<in> set (snd (cycle site interval p (fst (loop site interval init ps))))"
    by (auto simp: loop_snoc_events)
  then show ?case
  proof cases
    case old
    from snoc.IH [OF old snoc.prems(2)]
    obtain j where j: "j \<le> length ps"
      "lastFAIL (fst (loop site interval init (take j ps))) \<noteq> []"
      by (elim exE conjE)
    have "j \<le> length (ps @ [p])
          \<and> lastFAIL (fst (loop site interval init (take j (ps @ [p])))) \<noteq> []"
      using j by simp
    then show ?thesis by (rule exI [of _ j])
  next
    case new
    have "lastFAIL (fst (loop site interval init ps)) \<noteq> []"
      using report_cycle [OF new snoc.prems(2)] .
    then have "length ps \<le> length (ps @ [p])
               \<and> lastFAIL (fst (loop site interval init (take (length ps) (ps @ [p])))) \<noteq> []"
      by simp
    then show ?thesis by (rule exI [of _ "length ps"])
  qed
qed

lemma report_needs_alert:
  assumes "e \<in> set (snd (loop site interval init ps))" "is_recovery_report e"
  shows "\<exists>k<length ps. 12 \<le> count (fst (loop site interval init (take (Suc k) ps)))
                \<and> count (fst (loop site interval init (take (Suc k) ps))) mod 12 = 0"
proof -
  from report_needs_lastFAIL [OF assms]
  obtain j where j: "j \<le> length ps"
    "lastFAIL (fst (loop site interval init (take j ps))) \<noteq> []"
    by (elim exE conjE)
  from lastFAIL_needs_alert [OF j(2)]
  obtain k where k: "k < length (take j ps)"
      "12 \<le> count (fst (loop site interval init (take (Suc k) (take j ps))))"
      "count (fst (loop site interval init (take (Suc k) (take j ps)))) mod 12 = 0"
    by (elim exE conjE)
  have "Suc k \<le> j" using k(1) by simp
  then have t: "take (Suc k) (take j ps) = take (Suc k) ps"
    by (simp add: min_absorb1)
  have "k < length ps \<and> 12 \<le> count (fst (loop site interval init (take (Suc k) ps)))
                \<and> count (fst (loop site interval init (take (Suc k) ps))) mod 12 = 0"
    using k j(1) unfolding t by simp
  then show ?thesis by (rule exI [of _ k])
qed

subsection \<open>Files\<close>

lemma overwrite_apply:
  "overwrite fs path text p = (if p = path then Some text else fs p)"
  by (simp add: overwrite_def)

lemma tee_a_apply:
  "tee_a fs path text p =
     (if p = path then Some ((case fs path of None \<Rightarrow> [] | Some old \<Rightarrow> old) @ text)
      else fs p)"
  by (simp add: tee_a_def)

lemma fold_overwrite:
  "fold (\<lambda>site fs. overwrite fs (logfile dir site) text) sites fs path =
     (if path \<in> logfile dir ` set sites then Some text else fs path)"
  by (induction sites arbitrary: fs) (auto simp: overwrite_def)

section \<open>The claims about the site monitor\<close>

subsection \<open>C4: a probe succeeds exactly on code 200\<close>

text \<open>
  Claim C4 says that a probe in which a redirect was followed counts as a failure. The
  monitor calls curl with \<^verbatim>\<open>-L\<close>: a probe answered by a 302 and then, at the new address,
  by a 200 yields the code 200 and is a success. Here it comes after a failed probe: the
  status goes back to UP, the counter to 0, and "response OK" is logged.
\<close>

theorem redirect_to_200_counterexample:
  "curl_sL [302, 200] = 200
   \<and> status (fst (sitemon ''42'' ''example.com'' 5 [(500, ''t1'')])) = DOWN
   \<and> cycle ''example.com'' 5 (curl_sL [302, 200], ''t2'')
         (fst (sitemon ''42'' ''example.com'' 5 [(500, ''t1'')]))
       = (\<lparr>lastOK = ''t2'', lastFAIL = [], status = UP, count = 0, error_duration = Some 5\<rparr>,
          [Log UP (Response_OK ''example.com'')])"
  by (simp add: curl_sL_def sitemon_def cycle_def init_def log_def)

text \<open>
  Claim C4, amended. Whatever the variables hold, a cycle takes the success branch (status
  UP, counter 0, \<^verbatim>\<open>lastOK\<close> set) if and only if the code curl reports is exactly 200, and
  the failure branch (status DOWN, counter increased by one, \<^verbatim>\<open>lastOK\<close> kept) on every
  other code. The code curl reports is that of the last response, after the redirects it
  followed: a probe is a success exactly when there was a response and the last one was a
  200, whether or not redirects led to it; a last response with another 2xx code or with
  a redirect code that curl did not follow, and no response at all, are failures.
\<close>

theorem success_iff_final_code_200:
  "(status (fst (cycle site interval (c, t) st)) = UP) = (c = 200)
   \<and> (status (fst (cycle site interval (c, t) st)) = DOWN) = (c \<noteq> 200)
   \<and> count (fst (cycle site interval (c, t) st)) = (if c = 200 then 0 else count st + 1)
   \<and> lastOK (fst (cycle site interval (c, t) st)) = (if c = 200 then t else lastOK st)
   \<and> (status (fst (cycle site interval (curl_sL rs, t) st)) = UP) = (rs \<noteq> [] \<and> last rs = 200)
   \<and> (status (fst (cycle site interval (curl_sL rs, t) st)) = DOWN) = (rs = [] \<or> last rs \<noteq> 200)
   \<and> count (fst (cycle site interval (curl_sL rs, t) st))
       = (if rs \<noteq> [] \<and> last rs = 200 then 0 else count st + 1)
   \<and> status (fst (cycle site interval (curl_sL (rs @ [200]), t) st)) = UP
   \<and> status (fst (cycle site interval (curl_sL (rs @ [204]), t) st)) = DOWN
   \<and> status (fst (cycle site interval (curl_sL (rs @ [302]), t) st)) = DOWN
   \<and> status (fst (cycle site interval (curl_sL [], t) st)) = DOWN"
  by (simp add: cycle_def Let_def curl_sL_def)

subsection \<open>C5: the counter of consecutive failures\<close>

text \<open>
  Claim C5. After the cycles on any probes \<open>ps\<close>, \<^verbatim>\<open>count\<close> is the number of non-200
  results at the end of \<open>ps\<close>, back to the most recent 200; one more cycle sets it to 0
  on a 200 and adds exactly 1 otherwise; and \<^verbatim>\<open>count\<close> is 0 whenever the status is UP.
\<close>

theorem consecutiveFailures_counts:
  "count (fst (sitemon pid site interval ps))
     = length (takeWhile (\<lambda>p. fst p \<noteq> 200) (rev ps))
   \<and> count (fst (sitemon pid site interval (ps @ [p]))) =
       (if fst p = 200 then 0 else count (fst (sitemon pid site interval ps)) + 1)
   \<and> (status (fst (sitemon pid site interval ps)) = UP \<longrightarrow>
        count (fst (sitemon pid site interval ps)) = 0)"
proof (intro conjI)
  show "count (fst (sitemon pid site interval ps))
          = length (takeWhile (\<lambda>p. fst p \<noteq> 200) (rev ps))"
    by (rule count_sitemon)
  show "count (fst (sitemon pid site interval (ps @ [p]))) =
       (if fst p = 200 then 0 else count (fst (sitemon pid site interval ps)) + 1)"
    by (simp add: sitemon_state loop_snoc_state cycle_success_state cycle_failure_count)
  show "status (fst (sitemon pid site interval ps)) = UP \<longrightarrow>
        count (fst (sitemon pid site interval ps)) = 0"
    using inv_sitemon [of pid site interval ps] by simp
qed

text \<open>Two failures and a success leave the status UP and the counter at 0.\<close>

theorem consecutiveFailures_counts_witness:
  "status (fst (sitemon ''42'' ''example.com'' 5 [(500, ''t1''), (404, ''t2''), (200, ''t3'')])) = UP
   \<and> count (fst (sitemon ''42'' ''example.com'' 5 [(500, ''t1''), (404, ''t2''), (200, ''t3'')])) = 0
   \<and> count (fst (sitemon ''42'' ''example.com'' 5
               ([(500, ''t1''), (404, ''t2''), (200, ''t3'')] @ [(503, ''t4'')]))) = 1"
  using consecutiveFailures_counts [of "''42''" "''example.com''" 5
          "[(500, ''t1''), (404, ''t2''), (200, ''t3'')]" "(503, ''t4'')"]
  by (simp add: sitemon_def cycle_def init_def log_def)

subsection \<open>C2: ALERT lines\<close>

text \<open>
  Claim C2. A cycle writes an ALERT line if and only if \<^verbatim>\<open>count\<close>, as the cycle leaves
  it, is positive and divisible by 12, and the line states \<^verbatim>\<open>count\<close> times the interval
  as the downtime. With interval 10 and 13 results that are all different from 200 there is
  no ALERT in the first 11 cycles, one in the 12th, stating 120 seconds, and no further one
  in the 13th.
\<close>

theorem alert_every_12th_failure:
  "alerts (snd (cycle site interval p st)) =
     (if 0 < count (fst (cycle site interval p st))
         \<and> count (fst (cycle site interval p st)) mod 12 = 0
      then [Log DOWN (ALERT site (Some (count (fst (cycle site interval p st)) * interval))
                        (lastOK st))]
      else [])
   \<and> (length ps = 13 \<and> (\<forall>p\<in>set ps. fst p \<noteq> 200) \<longrightarrow>
        alerts (snd (sitemon pid site 10 (take 11 ps))) = []
      \<and> alerts (snd (sitemon pid site 10 (take 12 ps))) = [Log DOWN (ALERT site (Some 120) [])]
      \<and> alerts (snd (sitemon pid site 10 ps)) = [Log DOWN (ALERT site (Some 120) [])])
   \<and> render (ALERT site (Some 120) []) = ''ALERT: '' @ site @ '' DOWN! for 120 seconds. Last ok: ''"
proof (intro conjI impI)
  show "alerts (snd (cycle site interval p st)) =
     (if 0 < count (fst (cycle site interval p st))
         \<and> count (fst (cycle site interval p st)) mod 12 = 0
      then [Log DOWN (ALERT site (Some (count (fst (cycle site interval p st)) * interval))
                        (lastOK st))]
      else [])"
    by (rule alerts_cycle)
next
  show "render (ALERT site (Some 120) []) = ''ALERT: '' @ site @ '' DOWN! for 120 seconds. Last ok: ''"
    by (simp add: expand_def dec.simps)
next
  assume a: "length ps = 13 \<and> (\<forall>p\<in>set ps. fst p \<noteq> 200)"
  have s: "alerts (snd (sitemon pid site 10 qs)) = alerts (snd (loop site 10 init qs))" for qs
    by (simp add: sitemon_events alerts_def)
  have l: "length ps = 13" and f: "\<forall>p\<in>set ps. fst p \<noteq> 200"
    using a by simp_all
  have f11: "\<forall>p\<in>set (take 11 ps). fst p \<noteq> 200"
    and f12: "\<forall>p\<in>set (take 12 ps). fst p \<noteq> 200"
    using f by (auto dest: in_set_takeD)
  show "alerts (snd (sitemon pid site 10 (take 11 ps))) = []"
    using alerts_all_fail [OF f11, of site 10] l by (simp add: s multiples_below_12)
  show "alerts (snd (sitemon pid site 10 (take 12 ps))) = [Log DOWN (ALERT site (Some 120) [])]"
    using alerts_all_fail [OF f12, of site 10] l by (simp add: s multiples_below_13)
  show "alerts (snd (sitemon pid site 10 ps)) = [Log DOWN (ALERT site (Some 120) [])]"
    using alerts_all_fail [OF f, of site 10] l by (simp add: s multiples_below_14)
qed

text \<open>Thirteen answers 500 in a row, at interval 10.\<close>

theorem alert_every_12th_failure_witness:
  "length (replicate 13 (500::nat, ''t'')) = 13
   \<and> alerts (snd (sitemon ''42'' ''example.com'' 10 (replicate 13 (500, ''t''))))
       = [Log DOWN (ALERT ''example.com'' (Some 120) [])]
   \<and> render (ALERT ''example.com'' (Some 120) [])
       = ''ALERT: example.com DOWN! for 120 seconds. Last ok: ''"
  using alert_every_12th_failure [of "''example.com''" 10 "(500, ''t'')" init
          "replicate 13 (500, ''t'')" "''42''"]
  by simp

subsection \<open>C6: ordinary failure lines\<close>

text \<open>
  Claim C6. A cycle writes an ordinary failure line, which carries the code curl reported,
  if and only if \<^verbatim>\<open>count\<close>, as the cycle leaves it, is between 1 and 4; a cycle that leaves
  \<^verbatim>\<open>count\<close> above 4 and not on a multiple of 12 writes nothing at all. A cycle leaves
  \<^verbatim>\<open>count\<close> at 0 after a 200 and one higher after any other code. So in a run, a failed
  probe that comes after \<open>n\<close> failed probes in a row writes the failure line (copied to
  Telegram) exactly when \<open>n < 4\<close>, then the ALERT line (copied too) exactly when \<open>n + 1\<close>
  is a multiple of 12, and nothing else.
\<close>

theorem ordinary_failure_lines:
  "failure_lines (snd (cycle site interval p st)) =
     (if 1 \<le> count (fst (cycle site interval p st)) \<and> count (fst (cycle site interval p st)) \<le> 4
      then [Log DOWN (Response_FAIL site (fst p))] else [])
   \<and> (4 < count (fst (cycle site interval p st))
        \<and> count (fst (cycle site interval p st)) mod 12 \<noteq> 0
        \<longrightarrow> snd (cycle site interval p st) = [])
   \<and> render (Response_FAIL site (fst p)) = site @ '' response FAIL with code '' @ http_code (fst p)
   \<and> count (fst (cycle site interval p st)) = (if fst p = 200 then 0 else count st + 1)
   \<and> (fst p \<noteq> 200 \<longrightarrow>
        snd (cycle site interval p (fst (sitemon pid site interval ps))) =
          (if length (takeWhile (\<lambda>q. fst q \<noteq> 200) (rev ps)) < 4
           then [Log DOWN (Response_FAIL site (fst p)), Telegram (Response_FAIL site (fst p))]
           else [])
          @ (if Suc (length (takeWhile (\<lambda>q. fst q \<noteq> 200) (rev ps))) mod 12 = 0
             then [Log DOWN (ALERT site
                     (Some (Suc (length (takeWhile (\<lambda>q. fst q \<noteq> 200) (rev ps))) * interval))
                     (lastOK (fst (sitemon pid site interval ps)))),
                   Telegram (ALERT site
                     (Some (Suc (length (takeWhile (\<lambda>q. fst q \<noteq> 200) (rev ps))) * interval))
                     (lastOK (fst (sitemon pid site interval ps))))]
             else []))"
proof (intro conjI impI)
  show "failure_lines (snd (cycle site interval p st)) =
     (if 1 \<le> count (fst (cycle site interval p st)) \<and> count (fst (cycle site interval p st)) \<le> 4
      then [Log DOWN (Response_FAIL site (fst p))] else [])"
    by (simp add: cycle_def Let_def failure_lines_def log_def)
  show "render (Response_FAIL site (fst p)) = site @ '' response FAIL with code '' @ http_code (fst p)"
    by simp
  show "count (fst (cycle site interval p st)) = (if fst p = 200 then 0 else count st + 1)"
    by (simp add: cycle_def Let_def)
next
  assume "4 < count (fst (cycle site interval p st))
        \<and> count (fst (cycle site interval p st)) mod 12 \<noteq> 0"
  then show "snd (cycle site interval p st) = []"
    by (simp add: cycle_def Let_def log_def split: if_splits)
next
  assume f: "fst p \<noteq> 200"
  have c: "count (fst (sitemon pid site interval ps))
             = length (takeWhile (\<lambda>q. fst q \<noteq> 200) (rev ps))"
    by (rule count_sitemon)
  show "snd (cycle site interval p (fst (sitemon pid site interval ps))) =
          (if length (takeWhile (\<lambda>q. fst q \<noteq> 200) (rev ps)) < 4
           then [Log DOWN (Response_FAIL site (fst p)), Telegram (Response_FAIL site (fst p))]
           else [])
          @ (if Suc (length (takeWhile (\<lambda>q. fst q \<noteq> 200) (rev ps))) mod 12 = 0
             then [Log DOWN (ALERT site
                     (Some (Suc (length (takeWhile (\<lambda>q. fst q \<noteq> 200) (rev ps))) * interval))
                     (lastOK (fst (sitemon pid site interval ps)))),
                   Telegram (ALERT site
                     (Some (Suc (length (takeWhile (\<lambda>q. fst q \<noteq> 200) (rev ps))) * interval))
                     (lastOK (fst (sitemon pid site interval ps))))]
             else [])"
    using f unfolding c [symmetric]
    by (simp add: cycle_def Let_def log_def)
qed

text \<open>
  Five failures in a row: the fourth is logged with its code, 503, and copied to Telegram;
  the fifth leaves the counter at 5 and is silent.
\<close>

theorem ordinary_failure_lines_witness:
  "snd (cycle ''example.com'' 5 (503, ''t4'')
          (fst (sitemon ''42'' ''example.com'' 5 [(500, ''t1''), (500, ''t2''), (500, ''t3'')])))
     = [Log DOWN (Response_FAIL ''example.com'' 503), Telegram (Response_FAIL ''example.com'' 503)]
   \<and> count (fst (cycle ''example.com'' 5 (503, ''t4'')
          (fst (sitemon ''42'' ''example.com'' 5 [(500, ''t1''), (500, ''t2''), (500, ''t3'')])))) = 4
   \<and> 4 < count (fst (cycle ''example.com'' 5 (503, ''t5'')
                (fst (sitemon ''42'' ''example.com'' 5
                   [(500, ''t1''), (500, ''t2''), (500, ''t3''), (500, ''t4'')]))))
   \<and> count (fst (cycle ''example.com'' 5 (503, ''t5'')
                (fst (sitemon ''42'' ''example.com'' 5
                   [(500, ''t1''), (500, ''t2''), (500, ''t3''), (500, ''t4'')])))) mod 12 \<noteq> 0
   \<and> snd (cycle ''example.com'' 5 (503, ''t5'')
                (fst (sitemon ''42'' ''example.com'' 5
                   [(500, ''t1''), (500, ''t2''), (500, ''t3''), (500, ''t4'')]))) = []
   \<and> render (Response_FAIL ''example.com'' 503) = ''example.com response FAIL with code 503''"
  using ordinary_failure_lines [of "''example.com''" 5 "(503, ''t4'')"
          "fst (sitemon ''42'' ''example.com'' 5 [(500, ''t1''), (500, ''t2''), (500, ''t3'')])"
          "''42''" "[(500, ''t1''), (500, ''t2''), (500, ''t3'')]"]
        ordinary_failure_lines [of "''example.com''" 5 "(503, ''t5'')"
          "fst (sitemon ''42'' ''example.com'' 5
                   [(500, ''t1''), (500, ''t2''), (500, ''t3''), (500, ''t4'')])"
          "''42''" "[(500, ''t1''), (500, ''t2''), (500, ''t3''), (500, ''t4'')]"]
  by (simp add: sitemon_def cycle_def init_def log_def http_code_def dec.simps)

subsection \<open>C3: a success while the status is UP\<close>

text \<open>
  Claim C3 says that a successful probe while the status is UP writes no log line. The
  monitor does write one: \<^verbatim>\<open>log "$site response OK"\<close> runs on every successful probe.
  Here it is on the first cycle of a run, the status being UP from the start.
\<close>

theorem routine_success_counterexample:
  "status init = UP
   \<and> snd (cycle ''example.com'' 5 (200, ''2025-01-01 00:00:05'') init)
       = [Log UP (Response_OK ''example.com'')]
   \<and> snd (cycle ''example.com'' 5 (200, ''2025-01-01 00:00:05'') init) \<noteq> []"
  by (simp add: cycle_def init_def log_def)

text \<open>
  Claim C3, amended. In every cycle of a run in which the probe succeeds while the status
  is UP, the monitor changes no variable but \<^verbatim>\<open>lastOK\<close>, writes exactly one line,
  "site response OK", to the site's log, and sends nothing to Telegram.
\<close>

theorem routine_success_logs_OK:
  "status (fst (sitemon pid site interval ps)) = UP \<longrightarrow>
     cycle site interval (200, t) (fst (sitemon pid site interval ps)) =
       ((fst (sitemon pid site interval ps))\<lparr>lastOK := t\<rparr>, [Log UP (Response_OK site)])"
proof
  assume u: "status (fst (sitemon pid site interval ps)) = UP"
  then have c: "count (fst (sitemon pid site interval ps)) = 0"
    using inv_sitemon [of pid site interval ps] by simp
  show "cycle site interval (200, t) (fst (sitemon pid site interval ps)) =
       ((fst (sitemon pid site interval ps))\<lparr>lastOK := t\<rparr>, [Log UP (Response_OK site)])"
    using u c by (simp add: cycle_def Let_def log_def)
qed

text \<open>The second of two successes in a row.\<close>

theorem routine_success_logs_OK_witness:
  "status (fst (sitemon ''42'' ''example.com'' 5 [(200, ''t1'')])) = UP
   \<and> cycle ''example.com'' 5 (200, ''t2'') (fst (sitemon ''42'' ''example.com'' 5 [(200, ''t1'')])) =
       (\<lparr>lastOK = ''t2'', lastFAIL = [], status = UP, count = 0, error_duration = None\<rparr>,
        [Log UP (Response_OK ''example.com'')])"
  using routine_success_logs_OK [of "''42''" "''example.com''" 5 "[(200, ''t1'')]" "''t2''"]
  by (simp add: sitemon_def cycle_def init_def log_def)

subsection \<open>C1: the recovery report\<close>

text \<open>
  The recovery branch of the monitor reports only when \<^verbatim>\<open>lastFAIL\<close> is not empty. In a run,
  on a success while the status is DOWN: if \<^verbatim>\<open>lastFAIL\<close> is set, the monitor writes the
  "Last fail" line (copied to Telegram, the status still being DOWN) and sends one "back
  online" message, both stating the counter before its reset times the interval, and then
  writes "response OK"; if \<^verbatim>\<open>lastFAIL\<close> is empty it writes "response OK" only.
\<close>

lemma recovery_after_alert:
  "status (fst (sitemon pid site interval ps)) = DOWN \<longrightarrow>
     snd (cycle site interval (200, t) (fst (sitemon pid site interval ps))) =
       (if lastFAIL (fst (sitemon pid site interval ps)) \<noteq> []
        then [Log DOWN (Last_fail (lastFAIL (fst (sitemon pid site interval ps)))
                          (Some (count (fst (sitemon pid site interval ps)) * interval))),
              Telegram (Last_fail (lastFAIL (fst (sitemon pid site interval ps)))
                          (Some (count (fst (sitemon pid site interval ps)) * interval))),
              Telegram (Back_online site
                          (Some (count (fst (sitemon pid site interval ps)) * interval))),
              Log UP (Response_OK site)]
        else [Log UP (Response_OK site)])
     \<and> status (fst (cycle site interval (200, t) (fst (sitemon pid site interval ps)))) = UP
     \<and> count (fst (cycle site interval (200, t) (fst (sitemon pid site interval ps)))) = 0"
proof
  assume d: "status (fst (sitemon pid site interval ps)) = DOWN"
  then have e: "error_duration (fst (sitemon pid site interval ps)) =
                Some (count (fst (sitemon pid site interval ps)) * interval)"
    using inv_sitemon [of pid site interval ps] by simp
  show "snd (cycle site interval (200, t) (fst (sitemon pid site interval ps))) =
       (if lastFAIL (fst (sitemon pid site interval ps)) \<noteq> []
        then [Log DOWN (Last_fail (lastFAIL (fst (sitemon pid site interval ps)))
                          (Some (count (fst (sitemon pid site interval ps)) * interval))),
              Telegram (Last_fail (lastFAIL (fst (sitemon pid site interval ps)))
                          (Some (count (fst (sitemon pid site interval ps)) * interval))),
              Telegram (Back_online site
                          (Some (count (fst (sitemon pid site interval ps)) * interval))),
              Log UP (Response_OK site)]
        else [Log UP (Response_OK site)])
     \<and> status (fst (cycle site interval (200, t) (fst (sitemon pid site interval ps)))) = UP
     \<and> count (fst (cycle site interval (200, t) (fst (sitemon pid site interval ps)))) = 0"
    using d e by (simp add: cycle_def Let_def log_def)
qed

text \<open>
  Twelve failures at interval 5, then a success: \<^verbatim>\<open>lastFAIL\<close> was set by the twelfth, and
  the message states 60 seconds.
\<close>

lemma recovery_after_alert_example:
  "status (fst (sitemon ''42'' ''example.com'' 5 (replicate 12 (500, ''2025-01-01 00:01:00'')))) = DOWN
   \<and> snd (cycle ''example.com'' 5 (200, ''2025-01-01 00:01:05'')
            (fst (sitemon ''42'' ''example.com'' 5 (replicate 12 (500, ''2025-01-01 00:01:00''))))) =
       [Log DOWN (Last_fail ''2025-01-01 00:01:00'' (Some 60)),
        Telegram (Last_fail ''2025-01-01 00:01:00'' (Some 60)),
        Telegram (Back_online ''example.com'' (Some 60)),
        Log UP (Response_OK ''example.com'')]
   \<and> render (Back_online ''example.com'' (Some 60))
       = ''example.com is back online. Downtime was 60 seconds''"
proof -
  have st: "fst (sitemon ''42'' ''example.com'' 5 (replicate 12 (500, ''2025-01-01 00:01:00''))) =
     \<lparr>lastOK = [], lastFAIL = ''2025-01-01 00:01:00'', status = DOWN, count = 12,
      error_duration = Some 60\<rparr>"
    by code_simp
  have r: "render (Back_online ''example.com'' (Some 60))
             = ''example.com is back online. Downtime was 60 seconds''"
    by (simp add: expand_def dec.simps)
  show ?thesis
    using recovery_after_alert [of "''42''" "''example.com''" 5
            "replicate 12 (500, ''2025-01-01 00:01:00'')" "''2025-01-01 00:01:05''"] r
    by (simp add: st)
qed

text \<open>
  Claim C1. Every success while the status is DOWN is to give a recovery line and exactly
  one "back online" message stating the counter before its reset times the interval; the
  results 200, 200, 500, 500, 200 at interval 5 are to end with a message stating 10
  seconds. The monitor does not do so on that input. \<^verbatim>\<open>lastFAIL\<close>, declared as the
  timestamp of the last failed check, is assigned only in the block of every twelfth
  failure, so after two failures it is still empty: before the last probe the status is
  DOWN, the counter 2 and \<^verbatim>\<open>error_duration\<close> 10, and the last cycle writes "response OK"
  and sends nothing.
\<close>

theorem recovery_report_skipped:
  "fst (sitemon ''42'' ''example.com'' 5
          [(200, ''t1''), (200, ''t2''), (500, ''t3''), (500, ''t4'')])
     = \<lparr>lastOK = ''t2'', lastFAIL = [], status = DOWN, count = 2, error_duration = Some 10\<rparr>
   \<and> snd (sitemon ''42'' ''example.com'' 5
             [(200, ''t1''), (200, ''t2''), (500, ''t3''), (500, ''t4''), (200, ''t5'')]) =
       [Log UP (Monitoring_started ''example.com'' ''42''),
        Log UP (Response_OK ''example.com''),
        Log UP (Response_OK ''example.com''),
        Log DOWN (Response_FAIL ''example.com'' 500), Telegram (Response_FAIL ''example.com'' 500),
        Log DOWN (Response_FAIL ''example.com'' 500), Telegram (Response_FAIL ''example.com'' 500),
        Log UP (Response_OK ''example.com'')]
   \<and> Telegram (Back_online ''example.com'' (Some 10))
         \<notin> set (snd (sitemon ''42'' ''example.com'' 5
             [(200, ''t1''), (200, ''t2''), (500, ''t3''), (500, ''t4''), (200, ''t5'')]))"
  by (simp add: sitemon_def cycle_def init_def log_def)

subsection \<open>C7: which lines reach Telegram\<close>

text \<open>
  Claim C7. In the events of any run, a line logged while the status is DOWN is followed at
  once by the same message on Telegram, and a line logged while the status is UP is not
  followed by any Telegram message. Over the whole run, what Telegram receives is, in order,
  the lines logged while DOWN and the "back online" messages, and nothing else.
\<close>

theorem down_lines_are_mirrored:
  "(i < length (snd (sitemon pid site interval ps))
      \<and> snd (sitemon pid site interval ps) ! i = Log s m \<longrightarrow>
      (s = DOWN \<longrightarrow> Suc i < length (snd (sitemon pid site interval ps))
                  \<and> snd (sitemon pid site interval ps) ! Suc i = Telegram m)
    \<and> (s = UP \<longrightarrow> \<not> (Suc i < length (snd (sitemon pid site interval ps))
                      \<and> (\<exists>m'. snd (sitemon pid site interval ps) ! Suc i = Telegram m'))))
   \<and> concat (map sent (snd (sitemon pid site interval ps)))
       = concat (map due (snd (sitemon pid site interval ps)))"
proof (intro conjI impI)
  have m: "mirrored (snd (sitemon pid site interval ps))"
    using loop_mirrored [of site interval init ps]
    by (cases "snd (loop site interval init ps)" rule: starts_with_log.cases)
       (simp_all add: sitemon_events)
  {
    assume a: "i < length (snd (sitemon pid site interval ps))
               \<and> snd (sitemon pid site interval ps) ! i = Log s m"
    have r: "(s = DOWN \<longrightarrow> Suc i < length (snd (sitemon pid site interval ps))
                  \<and> snd (sitemon pid site interval ps) ! Suc i = Telegram m)
          \<and> (s = UP \<longrightarrow> \<not> (Suc i < length (snd (sitemon pid site interval ps))
                      \<and> (\<exists>m'. snd (sitemon pid site interval ps) ! Suc i = Telegram m')))"
      using mirrored_nth [OF m, of i s m] a by simp
    {
      assume "s = DOWN"
      then show "Suc i < length (snd (sitemon pid site interval ps))"
        and "snd (sitemon pid site interval ps) ! Suc i = Telegram m"
        using r by simp_all
    }
    {
      assume "s = UP"
      then show "\<not> (Suc i < length (snd (sitemon pid site interval ps))
                      \<and> (\<exists>m'. snd (sitemon pid site interval ps) ! Suc i = Telegram m'))"
        using r by simp
    }
  }
  show "concat (map sent (snd (sitemon pid site interval ps)))
       = concat (map due (snd (sitemon pid site interval ps)))"
    by (simp add: sitemon_events loop_accounting)
qed

text \<open>A failure and a success: the failure line is copied, the two lines logged while UP are not.\<close>

theorem down_lines_are_mirrored_witness:
  "snd (sitemon ''42'' ''example.com'' 5 [(500, ''t1''), (200, ''t2'')]) ! 1
     = Log DOWN (Response_FAIL ''example.com'' 500)
   \<and> snd (sitemon ''42'' ''example.com'' 5 [(500, ''t1''), (200, ''t2'')]) ! 2
     = Telegram (Response_FAIL ''example.com'' 500)
   \<and> snd (sitemon ''42'' ''example.com'' 5 [(500, ''t1''), (200, ''t2'')]) ! 3
     = Log UP (Response_OK ''example.com'')
   \<and> length (snd (sitemon ''42'' ''example.com'' 5 [(500, ''t1''), (200, ''t2'')])) = 4
   \<and> concat (map sent (snd (sitemon ''42'' ''example.com'' 5 [(500, ''t1''), (200, ''t2'')])))
     = [Response_FAIL ''example.com'' 500]"
  using down_lines_are_mirrored [of 1 "''42''" "''example.com''" 5 "[(500, ''t1''), (200, ''t2'')]"
          DOWN "Response_FAIL ''example.com'' 500"]
        down_lines_are_mirrored [of 3 "''42''" "''example.com''" 5 "[(500, ''t1''), (200, ''t2'')]"
          UP "Response_OK ''example.com''"]
  by (simp add: sitemon_def cycle_def init_def log_def)

subsection \<open>C10: when lastFAIL is set\<close>

text \<open>
  Claim C10. A cycle assigns \<^verbatim>\<open>lastFAIL\<close> exactly when the probe failed and \<^verbatim>\<open>count\<close>, as the
  cycle leaves it, is a positive multiple of 12; otherwise it leaves \<^verbatim>\<open>lastFAIL\<close> as it
  was. So, \<^verbatim>\<open>date\<close> never printing an empty text, \<^verbatim>\<open>lastFAIL\<close> once set stays set through
  every later cycle; and a recovery report (the "Last fail" line or the "back online"
  message) occurs in a run only if some earlier cycle of the run left \<^verbatim>\<open>count\<close> at a
  multiple of 12, at least 12: the probes up to that cycle end with 12 or more results in
  a row that are not 200.
\<close>

theorem lastFAIL_set_only_on_alert:
  "lastFAIL (fst (cycle site interval p st)) =
     (if fst p \<noteq> 200 \<and> 0 < count (fst (cycle site interval p st))
         \<and> count (fst (cycle site interval p st)) mod 12 = 0
      then snd p else lastFAIL st)
   \<and> ((\<forall>p\<in>set qs. snd p \<noteq> []) \<and> lastFAIL (fst (sitemon pid site interval ps)) \<noteq> [] \<longrightarrow>
        lastFAIL (fst (sitemon pid site interval (ps @ qs))) \<noteq> [])
   \<and> (e \<in> set (snd (sitemon pid site interval ps)) \<and> is_recovery_report e \<longrightarrow>
        (\<exists>k<length ps. 12 \<le> count (fst (sitemon pid site interval (take (Suc k) ps)))
                      \<and> count (fst (sitemon pid site interval (take (Suc k) ps))) mod 12 = 0
                      \<and> 12 \<le> length (takeWhile (\<lambda>p. fst p \<noteq> 200) (rev (take (Suc k) ps)))))"
proof (intro conjI impI)
  show "lastFAIL (fst (cycle site interval p st)) =
     (if fst p \<noteq> 200 \<and> 0 < count (fst (cycle site interval p st))
         \<and> count (fst (cycle site interval p st)) mod 12 = 0
      then snd p else lastFAIL st)"
    by (rule lastFAIL_cycle)
next
  assume a: "(\<forall>p\<in>set qs. snd p \<noteq> []) \<and> lastFAIL (fst (sitemon pid site interval ps)) \<noteq> []"
  have "fst (loop site interval init (ps @ qs))
          = fst (loop site interval (fst (loop site interval init ps)) qs)"
    by (simp add: loop_append split: prod.splits)
  then show "lastFAIL (fst (sitemon pid site interval (ps @ qs))) \<noteq> []"
    using lastFAIL_persists [of qs "fst (loop site interval init ps)" site interval] a
    by (simp add: sitemon_state)
next
  assume a: "e \<in> set (snd (sitemon pid site interval ps)) \<and> is_recovery_report e"
  then have m: "e \<in> set (snd (loop site interval init ps))"
    by (auto simp: sitemon_events)
  have r: "is_recovery_report e"
    using a by simp
  from report_needs_alert [OF m r]
  obtain k where k: "k < length ps"
    "12 \<le> count (fst (loop site interval init (take (Suc k) ps)))"
    "count (fst (loop site interval init (take (Suc k) ps))) mod 12 = 0"
    by (elim exE conjE)
  have "k < length ps
        \<and> 12 \<le> count (fst (sitemon pid site interval (take (Suc k) ps)))
        \<and> count (fst (sitemon pid site interval (take (Suc k) ps))) mod 12 = 0
        \<and> 12 \<le> length (takeWhile (\<lambda>p. fst p \<noteq> 200) (rev (take (Suc k) ps)))"
    using k count_sitemon [of pid site interval "take (Suc k) ps"]
    by (simp add: sitemon_state)
  then show "\<exists>k<length ps. 12 \<le> count (fst (sitemon pid site interval (take (Suc k) ps)))
                      \<and> count (fst (sitemon pid site interval (take (Suc k) ps))) mod 12 = 0
                      \<and> 12 \<le> length (takeWhile (\<lambda>p. fst p \<noteq> 200) (rev (take (Suc k) ps)))"
    by (rule exI [of _ k])
qed

text \<open>
  Twelve failures and a success set \<^verbatim>\<open>lastFAIL\<close> and give a report; two more failures and
  a success later \<^verbatim>\<open>lastFAIL\<close> is still set.
\<close>

theorem lastFAIL_set_only_on_alert_witness:
  "lastFAIL (fst (sitemon ''42'' ''example.com'' 5 (replicate 12 (500, ''t1'') @ [(200, ''t2'')]))) = ''t1''
   \<and> lastFAIL (fst (sitemon ''42'' ''example.com'' 5
        ((replicate 12 (500, ''t1'') @ [(200, ''t2'')]) @ [(500, ''t3''), (500, ''t4''), (200, ''t5'')])))
       \<noteq> []
   \<and> Telegram (Back_online ''example.com'' (Some 60))
        \<in> set (snd (sitemon ''42'' ''example.com'' 5 (replicate 12 (500, ''t1'') @ [(200, ''t2'')])))
   \<and> (\<exists>k<length (replicate 12 (500::nat, ''t1'') @ [(200, ''t2'')]).
         12 \<le> count (fst (sitemon ''42'' ''example.com'' 5
                 (take (Suc k) (replicate 12 (500, ''t1'') @ [(200, ''t2'')]))))
         \<and> count (fst (sitemon ''42'' ''example.com'' 5
                 (take (Suc k) (replicate 12 (500, ''t1'') @ [(200, ''t2'')])))) mod 12 = 0
         \<and> 12 \<le> length (takeWhile (\<lambda>p. fst p \<noteq> 200)
                         (rev (take (Suc k) (replicate 12 (500::nat, ''t1'') @ [(200, ''t2'')])))))"
proof -
  have l: "lastFAIL (fst (sitemon ''42'' ''example.com'' 5
             (replicate 12 (500, ''t1'') @ [(200, ''t2'')]))) = ''t1''"
    by code_simp
  have m: "Telegram (Back_online ''example.com'' (Some 60))
        \<in> set (snd (sitemon ''42'' ''example.com'' 5 (replicate 12 (500, ''t1'') @ [(200, ''t2'')])))"
    by code_simp
  show ?thesis
    using lastFAIL_set_only_on_alert [of "''example.com''" 5 "(200, ''t2'')" init
            "[(500, ''t3''), (500, ''t4''), (200, ''t5'')]" "''42''"
            "replicate 12 (500, ''t1'') @ [(200, ''t2'')]"
            "Telegram (Back_online ''example.com'' (Some 60))"] l m
    by simp
qed

section \<open>The claim about startup\<close>

subsection \<open>C8: what the startup block does to the log files\<close>

text \<open>
  Claim C8 says that the "started" record is appended to the aggregate log in both
  blocks, and that the second block leaves every per-site log empty. On a site log and an
  aggregate log that both hold a line: the second block leaves a newline in the site log,
  not an empty file (\<^verbatim>\<open>echo >file\<close> writes the newline echo prints), and leaves the
  aggregate log with the "started" record alone, the line it held being gone
  (\<^verbatim>\<open>tee\<close> without \<^verbatim>\<open>-a\<close>); the first block too leaves nothing of that line in the
  aggregate log, which ends up holding the record alone or nothing.
\<close>

theorem startup_counterexample:
  "example_files ''/var/log/sitemon.log'' = Some (echo ''history'')
   \<and> startup (example_config 1) Truncate_first ''2025-01-01 00:00:00'' ''42'' example_files
        ''/var/log/sitemon/example.com_a.log'' = Some [CHR 0x0A]
   \<and> startup (example_config 1) Truncate_first ''2025-01-01 00:00:00'' ''42'' example_files
        ''/var/log/sitemon/example.com_a.log'' \<noteq> Some []
   \<and> startup (example_config 1) Truncate_first ''2025-01-01 00:00:00'' ''42'' example_files
        ''/var/log/sitemon.log'' = Some (echo ''[2025-01-01 00:00:00]  Script is started. PID 42'')
   \<and> startup (example_config 0) Truncate_first ''2025-01-01 00:00:00'' ''42'' example_files
        ''/var/log/sitemon.log'' = Some (echo ''[2025-01-01 00:00:00] Script is started. PID 42'')
   \<and> startup (example_config 0) Append_first ''2025-01-01 00:00:00'' ''42'' example_files
        ''/var/log/sitemon.log'' = Some []"
  by (simp add: startup_def example_config_def example_files_def log_service_def
        overwrite_apply tee_a_apply fold_overwrite logfile_def echo_def)

text \<open>
  Claim C8, amended. If \<^verbatim>\<open>flush_log_on_start\<close> is 0, the startup block leaves every file
  but the aggregate log unchanged, so every per-site log that is not the aggregate log
  itself keeps its content. Otherwise, before any monitor is started, every such per-site
  log is overwritten and keeps nothing of what it held (no text is left in it, at most a
  line end), the aggregate log is then overwritten and holds the "started" record alone,
  and every other file is unchanged.
\<close>

theorem startup_effect:
  "(flush_log_on_start cfg = 0 \<longrightarrow>
      (\<forall>path. path \<noteq> LOG_FILE cfg \<longrightarrow> startup cfg ord date pid fs path = fs path)
      \<and> (\<forall>site\<in>set (SITES cfg). logfile (LOG_DIR cfg) site \<noteq> LOG_FILE cfg \<longrightarrow>
           startup cfg ord date pid fs (logfile (LOG_DIR cfg) site)
             = fs (logfile (LOG_DIR cfg) site)))
   \<and> (flush_log_on_start cfg \<noteq> 0 \<longrightarrow>
      (\<forall>site\<in>set (SITES cfg). logfile (LOG_DIR cfg) site \<noteq> LOG_FILE cfg \<longrightarrow>
         (\<exists>text. startup cfg ord date pid fs (logfile (LOG_DIR cfg) site) = Some text
                 \<and> set text \<subseteq> {CHR 0x0A}))
      \<and> startup cfg ord date pid fs (LOG_FILE cfg)
          = Some (echo (''['' @ date @ '']  Script is started. PID '' @ pid))
      \<and> (\<forall>path. path \<noteq> LOG_FILE cfg \<and> path \<notin> logfile (LOG_DIR cfg) ` set (SITES cfg) \<longrightarrow>
           startup cfg ord date pid fs path = fs path))"
  by (cases ord)
     (auto simp: startup_def Let_def overwrite_apply tee_a_apply log_service_def
        fold_overwrite echo_def)

text \<open>The two blocks on the example: one site, whose log holds a line.\<close>

theorem startup_effect_witness:
  "flush_log_on_start (example_config 0) = 0
   \<and> logfile (LOG_DIR (example_config 0)) ''example.com/a'' = ''/var/log/sitemon/example.com_a.log''
   \<and> ''/var/log/sitemon/example.com_a.log'' \<noteq> LOG_FILE (example_config 0)
   \<and> startup (example_config 0) Append_first ''2025-01-01 00:00:00'' ''42'' example_files
        ''/var/log/sitemon/example.com_a.log'' = Some (echo ''old line'')
   \<and> flush_log_on_start (example_config 1) \<noteq> 0
   \<and> (\<exists>text. startup (example_config 1) Append_first ''2025-01-01 00:00:00'' ''42'' example_files
                 ''/var/log/sitemon/example.com_a.log'' = Some text
               \<and> set text \<subseteq> {CHR 0x0A})
   \<and> startup (example_config 1) Append_first ''2025-01-01 00:00:00'' ''42'' example_files
        (LOG_FILE (example_config 1))
       = Some (echo (''['' @ ''2025-01-01 00:00:00'' @ '']  Script is started. PID '' @ ''42''))"
proof -
  have p: "logfile ''/var/log/sitemon'' ''example.com/a'' = ''/var/log/sitemon/example.com_a.log''"
    by (simp add: logfile_def)
  have o: "example_files ''/var/log/sitemon/example.com_a.log'' = Some (echo ''old line'')"
    by (simp add: example_files_def)
  show ?thesis
    using startup_effect [of "example_config 0" Append_first "''2025-01-01 00:00:00''" "''42''"
            example_files]
          startup_effect [of "example_config 1" Append_first "''2025-01-01 00:00:00''" "''42''"
            example_files] p o
    by (simp add: example_config_def)
qed


end
